theory Spec2Isabelle
  imports Main "HOL-Library.DAList" "HOL-Library.Char_ord" "HOL-Library.List_Lexorder"
begin

section \<open>Data model of \<open>gen_build_env.py\<close>\<close>

text \<open>
  Package names are Python strings. The metadata documents are modelled after parsing:
  \<open>release_package_xmls\<close> maps a package to the children of the root element of its
  release descriptor (what \<open>ElementTree.fromstring\<close> yields), each child with its tag, its
  text and its attribute dictionary. The attribute dictionary keeps the document order of
  the attributes and has distinct keys, so it is an association list with distinct keys.
\<close>

type_synonym name = string

record element =
  tag :: string
  etext :: name
  attrib :: "(string, string) alist"

text \<open>Values of the rosdep reference tables, as \<open>yaml.safe_load\<close> returns them.\<close>

datatype yval =
    YNull
  | YStr string
  | YSeq "string list"
  | YMap "(string \<times> yval) list"

text \<open>A repository entry of the distribution file: \<open>release.packages\<close> and \<open>source\<close>.\<close>

record source_entry =
  src_url :: string
  src_version :: string

record repository =
  release_packages :: "name list option"
  source :: "source_entry option"

text \<open>
  The state of a \<open>BuildFarm\<close> object once its lazily loaded documents are present:
  \<open>dist_cache["release_package_xmls"]\<close>,
  \<open>dist_cache["distribution_file"][0]["repositories"]\<close> (in document order),
  \<open>dist_base\<close> and \<open>dist_python\<close>.
\<close>

record BuildFarm =
  ros_distribution :: string
  ubuntu_distribution :: string
  release_package_xmls :: "name \<rightharpoonup> element list"
  repositories :: "(string \<times> repository) list"
  dist_base :: "name \<rightharpoonup> (string \<times> yval) list"
  dist_python :: "name \<rightharpoonup> (string \<times> yval) list"

text \<open>Exceptions that leave a method, and the records handed to the logger.\<close>

datatype error = KeyError string | TypeError string

datatype diag =
    Debug_version_not_found name
  | Warning_required_version name string name string
  | Debug_depend element
  | Warning_unknown_attribute string string name
  | Debug_found_in name string
  | Warning_names_not_found string yval
  | Warning_unknown_format
  | Debug_skip_duplicated string



text \<open>
  A \<open>for\<close> loop over a list whose body may raise: the first exception ends the loop.
\<close>

fun for_each :: "('a \<Rightarrow> 's \<Rightarrow> error + 's) \<Rightarrow> 'a list \<Rightarrow> 's \<Rightarrow> error + 's" where
  "for_each body [] s = Inr s"
| "for_each body (x # xs) s =
     (case body x s of Inl e \<Rightarrow> Inl e | Inr s' \<Rightarrow> for_each body xs s')"

text \<open>
  The same loop when the body makes a call that may not return: \<open>None\<close> is a call that
  does not return within the available recursion depth.
\<close>

fun for_each_call ::
  "('a \<Rightarrow> 's \<Rightarrow> (error + 's) option) \<Rightarrow> 'a list \<Rightarrow> 's \<Rightarrow> (error + 's) option" where
  "for_each_call body [] s = Some (Inr s)"
| "for_each_call body (x # xs) s =
     (case body x s of
        None \<Rightarrow> None
      | Some (Inl e) \<Rightarrow> Some (Inl e)
      | Some (Inr s') \<Rightarrow> for_each_call body xs s')"

text \<open>
  Iterating a Python set visits its members in an order the language does not fix. The
  order is a parameter \<open>order\<close> of every function that iterates a set;
  \<open>enumerates order\<close> says that it lists exactly the members of each finite set.
\<close>

definition enumerates :: "('a set \<Rightarrow> 'a list) \<Rightarrow> bool" where
  "enumerates order = (\<forall>S. finite S \<longrightarrow> set (order S) = S \<and> distinct (order S))"

section \<open>Release descriptors\<close>

definition get_xml_data_by_tags :: "BuildFarm \<Rightarrow> name \<Rightarrow> string list \<Rightarrow> element list" where
  "get_xml_data_by_tags self package_name tags =
     (case release_package_xmls self package_name of
        None \<Rightarrow> []
      | Some root \<Rightarrow> filter (\<lambda>child. tag child \<in> set tags) root)"

text \<open>
  \<open>get_package_version\<close>: indexing the empty list raises, the bare \<open>except\<close> logs at debug
  level and returns \<open>None\<close>.
\<close>

definition get_package_version :: "BuildFarm \<Rightarrow> name \<Rightarrow> string option \<times> diag list" where
  "get_package_version self package_name =
     (case get_xml_data_by_tags self package_name [''version''] of
        [] \<Rightarrow> (None, [Debug_version_not_found package_name])
      | d # _ \<Rightarrow> (Some (etext d), []))"

definition tags_for_dependencies :: "string list" where
  "tags_for_dependencies =
     [''depend'', ''build_depend'', ''buildtool_depend'', ''run_depend'', ''exec_depend'',
      ''build_export_depend'', ''test_depend'']"

definition get_dependencies :: "BuildFarm \<Rightarrow> name \<Rightarrow> element list" where
  "get_dependencies self package_name =
     get_xml_data_by_tags self package_name tags_for_dependencies"

section \<open>Dependency resolution\<close>

text \<open>Python's \<open>v.split(" ")\<close>: the pieces between single space characters.\<close>

fun split_space :: "string \<Rightarrow> string list" where
  "split_space [] = [[]]"
| "split_space (c # cs) =
     (if c = CHR '' '' then [] # split_space cs
      else (case split_space cs of [] \<Rightarrow> [[c]] | w # ws \<Rightarrow> (c # w) # ws))"

text \<open>\<open>v.split(" ")[-1]\<close>; the list is never empty, so the index never fails.\<close>

definition last_token :: "string \<Rightarrow> string" where
  "last_token v = last (split_space v)"

text \<open>
  One round of the loop over \<open>d["attrib"].items()\<close>. The comparison of versions is the
  external \<open>packaging\<close> library's; \<open>vparse\<close> stands for \<open>version.parse\<close> into its ordered
  version objects. \<open>depends.remove\<close> raises \<open>KeyError\<close> on a name that is not in the set.
\<close>

definition check_attribute ::
  "(string \<Rightarrow> 'v::ord) \<Rightarrow> BuildFarm \<Rightarrow> name \<Rightarrow> element \<Rightarrow> string \<times> string \<Rightarrow>
     name set \<times> diag list \<Rightarrow> error + name set \<times> diag list" where
  "check_attribute vparse self package_name d kv st =
     (case kv of (k, v) \<Rightarrow> case st of (depends, lg) \<Rightarrow>
        let dep_name = etext d in
        if k = ''condition'' \<and> last_token v \<noteq> ''3'' then
          (if dep_name \<in> depends then Inr (depends - {dep_name}, lg)
           else Inl (KeyError dep_name))
        else if k = ''version_gte'' then
          (case get_package_version self dep_name of
             (None, lg') \<Rightarrow> Inr (depends, lg @ lg')
           | (Some package_version, lg') \<Rightarrow>
               if vparse v \<ge> vparse package_version then
                 Inr (depends, lg @ lg' @
                   [Warning_required_version dep_name v package_name package_version,
                    Debug_depend d])
               else Inr (depends, lg @ lg'))
        else if k = ''version_gt'' then
          (case get_package_version self dep_name of
             (None, lg') \<Rightarrow> Inr (depends, lg @ lg')
           | (Some package_version, lg') \<Rightarrow>
               if vparse v > vparse package_version then
                 Inr (depends, lg @ lg' @
                   [Warning_required_version dep_name v package_name package_version,
                    Debug_depend d])
               else Inr (depends, lg @ lg'))
        else if k = ''condition'' then Inr (depends, lg)
        else Inr (depends, lg @ [Warning_unknown_attribute k v dep_name, Debug_depend d]))"

text \<open>One round of the loop over \<open>depends_xml\<close>: add the name, then check the attributes.\<close>

definition add_depend ::
  "(string \<Rightarrow> 'v::ord) \<Rightarrow> BuildFarm \<Rightarrow> name \<Rightarrow> element \<Rightarrow>
     name set \<times> diag list \<Rightarrow> error + name set \<times> diag list" where
  "add_depend vparse self package_name d st =
     (case st of (depends, lg) \<Rightarrow>
        for_each (check_attribute vparse self package_name d) (DAList.impl_of (attrib d))
          (insert (etext d) depends, lg))"

text \<open>The first loop of \<open>get_package_dependencies\<close>, from \<open>depends = set()\<close>.\<close>

definition direct_depends ::
  "(string \<Rightarrow> 'v::ord) \<Rightarrow> BuildFarm \<Rightarrow> name \<Rightarrow> error + name set \<times> diag list" where
  "direct_depends vparse self package_name =
     for_each (add_depend vparse self package_name) (get_dependencies self package_name) ({}, [])"

text \<open>
  One round of the second loop: \<open>child\<close> is the recursive call
  \<open>self.get_package_dependencies(key, depends)\<close>, which receives the caller's current
  set as its \<open>ignore_depends\<close>.
\<close>

definition expand_key ::
  "(name \<Rightarrow> name set \<Rightarrow> (error + name set \<times> diag list) option) \<Rightarrow> name set \<Rightarrow> name \<Rightarrow>
     name set \<times> diag list \<Rightarrow> (error + name set \<times> diag list) option" where
  "expand_key child ignore_depends key st =
     (case st of (depends, lg) \<Rightarrow>
        if key \<notin> ignore_depends then
          (case child key depends of
             None \<Rightarrow> None
           | Some (Inl e) \<Rightarrow> Some (Inl e)
           | Some (Inr (child_depends, lg')) \<Rightarrow> Some (Inr (depends \<union> child_depends, lg @ lg')))
        else Some (Inr (depends, lg)))"

text \<open>
  The body of \<open>get_package_dependencies\<close> with its recursive call as the parameter
  \<open>child\<close>; the second loop runs over \<open>list(depends)\<close>, taken before the loop starts.
\<close>

definition get_package_dependencies_body ::
  "(name \<Rightarrow> name set \<Rightarrow> (error + name set \<times> diag list) option) \<Rightarrow>
     (name set \<Rightarrow> name list) \<Rightarrow> (string \<Rightarrow> 'v::ord) \<Rightarrow> BuildFarm \<Rightarrow>
     name \<Rightarrow> name set \<Rightarrow> bool \<Rightarrow> (error + name set \<times> diag list) option" where
  "get_package_dependencies_body child order vparse self package_name ignore_depends recursive =
     (case direct_depends vparse self package_name of
        Inl e \<Rightarrow> Some (Inl e)
      | Inr (depends, lg) \<Rightarrow>
          if recursive then
            for_each_call (expand_key child ignore_depends) (order depends) (depends, lg)
          else Some (Inr (depends, lg)))"

text \<open>
  \<open>get_package_dependencies\<close>. The first argument is the number of nested calls the
  interpreter still allows below this one: a call that needs a deeper nesting does not
  return a result, which is the value \<open>None\<close>. The recursive call passes no \<open>recursive\<close>
  argument, so it runs with the default \<open>True\<close>.
\<close>

primrec get_package_dependencies ::
  "nat \<Rightarrow> (name set \<Rightarrow> name list) \<Rightarrow> (string \<Rightarrow> 'v::ord) \<Rightarrow> BuildFarm \<Rightarrow>
     name \<Rightarrow> name set \<Rightarrow> bool \<Rightarrow> (error + name set \<times> diag list) option" where
  "get_package_dependencies 0 order vparse self package_name ignore_depends recursive =
     get_package_dependencies_body (\<lambda>key depends. None)
       order vparse self package_name ignore_depends recursive"
| "get_package_dependencies (Suc fuel) order vparse self package_name ignore_depends recursive =
     get_package_dependencies_body
       (\<lambda>key depends. get_package_dependencies fuel order vparse self key depends True)
       order vparse self package_name ignore_depends recursive"

section \<open>Classification and OS package names\<close>

definition classify_packages :: "BuildFarm \<Rightarrow> name set \<Rightarrow> name set \<times> name set \<times> name set" where
  "classify_packages self packages =
     (let base_keys = dom (dist_base self);
          python_keys = dom (dist_python self);
          base_packages = base_keys \<inter> packages;
          python_packages = python_keys \<inter> packages;
          build_packages = packages - base_packages - python_packages
      in (base_packages, python_packages, build_packages))"







section \<open>Build plan\<close>

record MakefileTarget =
  target :: string
  depends :: "string list"
  commands :: "string list"
  comment :: string
  phony :: bool
  alias_name :: "string option"

text \<open>Python's \<open>sep.join(xs)\<close>.\<close>

fun join :: "string \<Rightarrow> string list \<Rightarrow> string" where
  "join sep [] = []"
| "join sep [x] = x"
| "join sep (x # y # ys) = x @ sep @ join sep (y # ys)"

text \<open>\<open>MakefileTarget.__str__\<close>; an alias that is \<open>None\<close> or empty is false.\<close>

definition str_MakefileTarget :: "MakefileTarget \<Rightarrow> string" where
  "str_MakefileTarget t =
     (if comment t \<noteq> [] then ''# '' @ comment t @ [CHR 0x0A] else []) @
     (case alias_name t of
        None \<Rightarrow> []
      | Some a \<Rightarrow>
          if a \<noteq> [] then
            ''.PHONY: '' @ a @ [CHR 0x0A] @ a @ '': '' @ target t @ [CHR 0x0A, CHR 0x0A]
          else []) @
     (if phony t then ''.PHONY: '' @ target t @ [CHR 0x0A] else []) @
     target t @ '':'' @
     (if depends t \<noteq> [] then '' '' @ join '' '' (depends t) @ [CHR 0x0A] else [CHR 0x0A]) @
     concat (map (\<lambda>cmd. [CHR 0x09] @ cmd @ [CHR 0x0A]) (commands t))"

text \<open>
  \<open>GitRepository\<close>. \<open>base_dir\<close> is a path; joining it with a plain component puts a
  slash between them.
\<close>

record GitRepository =
  name :: string
  url :: string
  base_dir :: string
  branch :: "string option"
  recursive :: bool

definition makefile_target :: "GitRepository \<Rightarrow> MakefileTarget" where
  "makefile_target r =
     (let clone_cmd = ''git clone '' @ url r @ '' `dirname $@`'';
          clone_cmd = (case branch r of
                         None \<Rightarrow> clone_cmd
                       | Some b \<Rightarrow> if b \<noteq> [] then clone_cmd @ '' -b '' @ b else clone_cmd);
          clone_cmd = (if recursive r then clone_cmd @ '' --recursive'' else clone_cmd)
      in \<lparr>target = base_dir r @ ''/'' @ name r @ ''/.git'', depends = [],
          commands = [clone_cmd], comment = [], phony = False, alias_name = None\<rparr>)"

definition repo_dir :: "GitRepository \<Rightarrow> string" where
  "repo_dir r = base_dir r @ ''/'' @ name r"

text \<open>
  \<open>BuildPackage(target, repo)\<close>: \<open>__post_init__\<close> puts the checkout target in front of
  the prerequisites, and \<open>makefile_targets\<close> lists the checkout target and the target.
\<close>

definition BuildPackage_makefile_targets ::
  "MakefileTarget \<times> GitRepository \<Rightarrow> MakefileTarget list" where
  "BuildPackage_makefile_targets pkg =
     (case pkg of (tgt, repo) \<Rightarrow>
        [makefile_target repo,
         tgt\<lparr>depends := target (makefile_target repo) # depends tgt\<rparr>])"

text \<open>
  \<open>get_repository\<close>: the first repository, in document order, whose
  \<open>release.packages\<close> (by default the repository's own name) lists the package.
\<close>

fun get_repository_loop ::
  "name \<Rightarrow> (string \<times> repository) list \<Rightarrow>
     (string option \<times> repository option) \<times> diag list" where
  "get_repository_loop package_name [] = ((None, None), [])"
| "get_repository_loop package_name ((k, v) # rest) =
     (if package_name \<in> set (case release_packages v of None \<Rightarrow> [k] | Some ps \<Rightarrow> ps)
      then ((Some k, Some v), [Debug_found_in package_name k])
      else get_repository_loop package_name rest)"

definition get_repository ::
  "BuildFarm \<Rightarrow> name \<Rightarrow> (string option \<times> repository option) \<times> diag list" where
  "get_repository self package_name = get_repository_loop package_name (repositories self)"

text \<open>Python's \<open>str\<close> of a natural number, and \<open>s.replace('_', '-')\<close>.\<close>

definition digit_char :: "nat \<Rightarrow> char" where
  "digit_char d = ''0123456789'' ! d"

fun str_nat :: "nat \<Rightarrow> string" where
  "str_nat n = (if n < 10 then [digit_char n] else str_nat (n div 10) @ [digit_char (n mod 10)])"

declare str_nat.simps [simp del]

definition replace_underscore :: "string \<Rightarrow> string" where
  "replace_underscore s = map (\<lambda>c. if c = CHR ''_'' then CHR ''-'' else c) s"

text \<open>The elements of \<open>makefile_targets\<close>: a comment line or a target.\<close>

datatype item = Comment string | Target MakefileTarget

definition str_item :: "item \<Rightarrow> string" where
  "str_item i = (case i of Comment s \<Rightarrow> s | Target t \<Rightarrow> str_MakefileTarget t)"

definition build_dir :: "BuildFarm \<Rightarrow> string" where
  "build_dir self = ''/root/'' @ ros_distribution self @ ''_build/src''"

definition env_dep :: "BuildFarm \<Rightarrow> string list" where
  "env_dep self = [''/tmp/deb/.touch'', ''/tmp/built_packages/.touch'', build_dir self @ ''/.touch'']"

text \<open>
  The main target. \<open>main_targets\<close> is a set, read in its iteration order when the
  target is printed; \<open>len(build_dep)\<close> is the number of members of the set.
\<close>

definition main_target :: "(name set \<Rightarrow> name list) \<Rightarrow> name set \<Rightarrow> name set \<Rightarrow> MakefileTarget" where
  "main_target order main_targets build_dep =
     \<lparr>target = ''all'', depends = order main_targets,
      commands = [''@echo built packages : `ls -1 /tmp/deb/* | wc -l` / '' @
                    str_nat (card build_dep + 8)],
      comment = [], phony = True, alias_name = None\<rparr>"

definition env_targets :: "BuildFarm \<Rightarrow> item list" where
  "env_targets self =
     [Comment ''# build env'',
      Target \<lparr>target = ''env_targets'', depends = env_dep self, commands = [],
              comment = [], phony = False, alias_name = None\<rparr>] @
     map (\<lambda>env. Target \<lparr>target = env, depends = [],
                        commands = [''mkdir -p $(shell dirname $@)'', ''touch $@''],
                        comment = [], phony = False, alias_name = None\<rparr>) (env_dep self)"

definition python_tools :: "item list" where
  "python_tools =
     [Comment ''# python tools for build'',
      Target \<lparr>target = ''python_tools'', depends = [''/root/.ros/rosdep/sources.cache''],
              commands = [], comment = [], phony = True, alias_name = None\<rparr>,
      Target \<lparr>target = ''/etc/ros/rosdep/sources.list.d'',
              depends = [''/tmp/built_packages/rosdep''],
              commands = [''rosdep init''], comment = [], phony = False, alias_name = None\<rparr>,
      Target \<lparr>target = ''/root/.ros/rosdep/sources.cache'',
              depends = [''/root/rosdep.yaml'', ''/etc/ros/rosdep/sources.list.d''],
              commands =
                [''echo '' @ [CHR 0x22] @ ''yaml file:///root/rosdep.yaml'' @ [CHR 0x22] @
                   '' > /etc/ros/rosdep/sources.list.d/99-custom.list'',
                 ''rosdep update''],
              comment = [], phony = False, alias_name = None\<rparr>]"

definition python_packages :: "(string \<times> string list) list" where
  "python_packages =
     [(''catkin_pkg'', []), (''rospkg'', [''catkin_pkg'']), (''rosdistro'', [''rospkg'']),
      (''rosdep'', [''rosdistro''])]"

definition python_build_packages :: "BuildFarm \<Rightarrow> (MakefileTarget \<times> GitRepository) list" where
  "python_build_packages self =
     (\<lparr>target = ''/usr/local/bin/ros_release_python'', depends = [],
       commands = [''ln -sf '' @ build_dir self @
                     ''/ros_release_python/scripts/ros_release_python $@''],
       comment = [], phony = False, alias_name = None\<rparr>,
      \<lparr>name = ''ros_release_python'',
       url = ''https://github.com/ros-infrastructure/ros_release_python.git'',
       base_dir = build_dir self, branch = None, recursive = True\<rparr>) #
     map (\<lambda>(pkg, dep).
            (\<lparr>target = ''/tmp/built_packages/'' @ replace_underscore pkg,
              depends = [''/usr/local/bin/ros_release_python''] @ env_dep self @
                map (\<lambda>d. ''/tmp/built_packages/'' @ replace_underscore d) dep,
              commands = [''cd `dirname $<` && ros_release_python deb3 && '' @
                            ''apt-get install -y ./deb_dist/*.deb && '' @
                            ''mv ./deb_dist/*.deb /tmp/deb && touch $@''],
              comment = [], phony = False, alias_name = None\<rparr>,
             \<lparr>name = pkg, url = ''https://github.com/ros-infrastructure/'' @ pkg @ ''.git'',
              base_dir = build_dir self, branch = None, recursive = True\<rparr>))
         python_packages"

text \<open>
  One round of the loop over \<open>build_dep\<close>. The call
  \<open>get_package_dependencies(target, recursive=False)\<close> is the first loop alone
  (\<open>direct_depends\<close>). Subscripting the \<open>None\<close> that \<open>get_repository\<close> returns for an
  unlisted package raises \<open>TypeError\<close>; a repository without a \<open>source\<close> entry raises
  \<open>KeyError\<close>.
\<close>

definition package_target ::
  "(name set \<Rightarrow> name list) \<Rightarrow> BuildFarm \<Rightarrow> name \<Rightarrow> name set \<Rightarrow> string \<Rightarrow> source_entry \<Rightarrow>
     MakefileTarget \<times> GitRepository" where
  "package_target order self tgt dependencies repo_name s =
     (let url = (if repo_name = ''rosconsole''
                 then ''https://github.com/twdragon/rosconsole.git'' else src_url s);
          branch = (if repo_name = ''rosconsole'' then ''log4cxx-0.12'' else src_version s);
          repository = \<lparr>name = repo_name, url = url, base_dir = build_dir self,
                        branch = Some branch, recursive = True\<rparr>
      in (\<lparr>target = ''/tmp/built_packages/'' @ tgt,
           depends = map (\<lambda>d. ''/tmp/built_packages/'' @ d) (order dependencies) @
                     [''/root/.ros/rosdep/sources.cache''],
           commands = [''bash build_ros_package.sh '' @ repo_dir repository @ '' '' @ tgt @
                         '' && touch $@''],
           comment = [], phony = False, alias_name = Some tgt\<rparr>,
          repository))"

definition build_package ::
  "(name set \<Rightarrow> name list) \<Rightarrow> (string \<Rightarrow> 'v::ord) \<Rightarrow> BuildFarm \<Rightarrow> name set \<Rightarrow> name \<Rightarrow>
     (MakefileTarget \<times> GitRepository) list \<times> diag list \<Rightarrow>
     error + (MakefileTarget \<times> GitRepository) list \<times> diag list" where
  "build_package order vparse self build_dep tgt st =
     (case st of (build_targets, lg) \<Rightarrow>
        (case direct_depends vparse self tgt of
           Inl e \<Rightarrow> Inl e
         | Inr (depends_of_target, lg1) \<Rightarrow>
             (case get_repository self tgt of
                ((repo_name, repo), lg2) \<Rightarrow>
                  (case repo of
                     None \<Rightarrow> Inl (TypeError ''NoneType object is not subscriptable'')
                   | Some r \<Rightarrow>
                       (case source r of
                          None \<Rightarrow> Inl (KeyError ''source'')
                        | Some s \<Rightarrow>
                            (case repo_name of
                               None \<Rightarrow> Inl (TypeError ''unsupported operand type for /'')
                             | Some rn \<Rightarrow>
                                 Inr (build_targets @
                                        [package_target order self tgt
                                           (depends_of_target \<inter> build_dep) rn s],
                                      lg @ lg1 @ lg2)))))))"

text \<open>
  The list \<open>makefile_targets\<close> before it is written: the fixed part, the targets of the
  packages to build, and \<open>clean\<close>.
\<close>

definition fixed_targets ::
  "(name set \<Rightarrow> name list) \<Rightarrow> BuildFarm \<Rightarrow> name set \<Rightarrow> name set \<Rightarrow> item list" where
  "fixed_targets order self main_targets build_dep =
     [Comment ''# main target'', Target (main_target order main_targets build_dep)] @
     env_targets self @ python_tools @
     map Target (concat (map BuildPackage_makefile_targets (python_build_packages self))) @
     [Comment ''# ROS packages to build'']"

definition clean_target :: "BuildFarm \<Rightarrow> MakefileTarget" where
  "clean_target self =
     \<lparr>target = ''clean'', depends = [],
      commands = [''rm -rf /tmp/deb /tmp/built_packages '' @ build_dir self @
                    '' /usr/local/bin/ros_release_python'' @
                    '' /etc/ros/rosdep/sources.list.d/20-default.list''],
      comment = [], phony = True, alias_name = None\<rparr>"

text \<open>
  The write loop, from a given \<open>wrote_targets\<close>: a target whose identifier is already in
  \<open>wrote_targets\<close> is skipped with a debug record, every other element is written. The
  result is the sequence of elements written and the records logged.
\<close>

fun write_targets :: "item list \<Rightarrow> string set \<Rightarrow> item list \<times> diag list" where
  "write_targets [] wrote_targets = ([], [])"
| "write_targets (Comment s # rest) wrote_targets =
     (case write_targets rest wrote_targets of (out, lg) \<Rightarrow> (Comment s # out, lg))"
| "write_targets (Target t # rest) wrote_targets =
     (if target t \<in> wrote_targets then
        (case write_targets rest wrote_targets of
           (out, lg) \<Rightarrow> (out, Debug_skip_duplicated (target t) # lg))
      else
        (case write_targets rest (insert (target t) wrote_targets) of
           (out, lg) \<Rightarrow> (Target t # out, lg)))"

text \<open>The text of the file: \<open>f.write(f"{target}\n")\<close> for every element written.\<close>

definition file_text :: "item list \<Rightarrow> string" where
  "file_text out = concat (map (\<lambda>i. str_item i @ [CHR 0x0A]) out)"

definition accumulate_targets ::
  "(name set \<Rightarrow> name list) \<Rightarrow> (string \<Rightarrow> 'v::ord) \<Rightarrow> BuildFarm \<Rightarrow> name set \<Rightarrow> name set \<Rightarrow>
     error + item list \<times> diag list" where
  "accumulate_targets order vparse self main_targets build_dep =
     (case for_each (build_package order vparse self build_dep) (order build_dep) ([], []) of
        Inl e \<Rightarrow> Inl e
      | Inr (build_targets, lg) \<Rightarrow>
          Inr (fixed_targets order self main_targets build_dep @
               map Target (concat (map BuildPackage_makefile_targets build_targets)) @
               [Target (clean_target self)], lg))"

text \<open>
  \<open>gen_makefile\<close>: the accumulated list goes through the write loop, which starts
  from an empty \<open>wrote_targets\<close>. An exception while accumulating leaves before the
  file is opened.
\<close>

definition gen_makefile ::
  "(name set \<Rightarrow> name list) \<Rightarrow> (string \<Rightarrow> 'v::ord) \<Rightarrow> BuildFarm \<Rightarrow> name set \<Rightarrow> name set \<Rightarrow>
     error + item list \<times> diag list" where
  "gen_makefile order vparse self main_targets build_dep =
     (case accumulate_targets order vparse self main_targets build_dep of
        Inl e \<Rightarrow> Inl e
      | Inr (makefile_targets, lg) \<Rightarrow>
          (case write_targets makefile_targets {} of (out, lg') \<Rightarrow> Inr (out, lg @ lg')))"

section \<open>Notions used to state the properties\<close>

text \<open>
  An edge is active when its attribute dictionary has no \<open>condition\<close> whose last token
  differs from \<open>"3"\<close>.
\<close>

definition edge_active :: "element \<Rightarrow> bool" where
  "edge_active d =
     list_all (\<lambda>(k, v). k = ''condition'' \<longrightarrow> last_token v = ''3'') (DAList.impl_of (attrib d))"

text \<open>The last edge of a list that targets a given name.\<close>

fun last_edge :: "element list \<Rightarrow> name \<Rightarrow> element option" where
  "last_edge [] n = None"
| "last_edge (d # es) n =
     (case last_edge es n of
        Some d' \<Rightarrow> Some d'
      | None \<Rightarrow> if etext d = n then Some d else None)"

text \<open>The declared dependency graph: \<open>(q, p)\<close> when some edge of \<open>p\<close> targets \<open>q\<close>.\<close>

definition declared :: "BuildFarm \<Rightarrow> (name \<times> name) set" where
  "declared self = {(q, p). q \<in> etext ` set (get_dependencies self p)}"




text \<open>The targets among the elements of a plan, in order.\<close>

fun targets_of :: "item list \<Rightarrow> MakefileTarget list" where
  "targets_of [] = []"
| "targets_of (Comment s # rest) = targets_of rest"
| "targets_of (Target t # rest) = t # targets_of rest"

text \<open>Reading a decimal numeral back.\<close>

definition digit_value :: "char \<Rightarrow> nat" where
  "digit_value c =
     (case map_of [(CHR ''0'', 0), (CHR ''1'', 1), (CHR ''2'', 2), (CHR ''3'', 3), (CHR ''4'', 4),
                   (CHR ''5'', 5), (CHR ''6'', 6), (CHR ''7'', 7), (CHR ''8'', 8), (CHR ''9'', 9)] c of
        None \<Rightarrow> 0 | Some d \<Rightarrow> d)"

definition nat_of_string :: "string \<Rightarrow> nat" where
  "nat_of_string s = foldl (\<lambda>n c. 10 * n + digit_value c) 0 s"

text \<open>
  A stand-in for \<open>version.parse\<close> on release versions such as \<open>1.2.10\<close>, compared
  segment by segment; it is used to run the functions on examples.
\<close>

fun release_segments :: "nat \<Rightarrow> string \<Rightarrow> nat list" where
  "release_segments n [] = [n]"
| "release_segments n (c # cs) =
     (if c = CHR ''.'' then n # release_segments 0 cs
      else release_segments (10 * n + digit_value c) cs)"

definition release_version :: "string \<Rightarrow> nat list" where
  "release_version s = release_segments 0 s"

text \<open>A package is listed when some repository's release package list contains it.\<close>

definition listed :: "BuildFarm \<Rightarrow> name \<Rightarrow> bool" where
  "listed self package_name =
     list_ex (\<lambda>(k, v). package_name \<in> set (case release_packages v of None \<Rightarrow> [k] | Some ps \<Rightarrow> ps))
       (repositories self)"

section \<open>Example metadata\<close>

text \<open>
  Package \<open>p\<close> depends on \<open>x\<close> only for Python 2 and on \<open>y\<close> without a condition; \<open>y\<close>
  depends on \<open>x\<close> without a condition. \<open>x\<close> has no release descriptor.
\<close>

definition conditional_farm :: BuildFarm where
  "conditional_farm =
     \<lparr>ros_distribution = ''noetic'', ubuntu_distribution = ''jammy'',
      release_package_xmls =
        [''p'' \<mapsto> [\<lparr>tag = ''depend'', etext = ''x'',
                     attrib = DAList.Alist [(''condition'', ''$ROS_PYTHON_VERSION == 2'')]\<rparr>,
                    \<lparr>tag = ''depend'', etext = ''y'', attrib = DAList.Alist []\<rparr>],
         ''y'' \<mapsto> [\<lparr>tag = ''depend'', etext = ''x'', attrib = DAList.Alist []\<rparr>]],
      repositories = [], dist_base = Map.empty, dist_python = Map.empty\<rparr>"

text \<open>
  Package \<open>q\<close> declares two edges to \<open>x\<close>: the first without a condition, the second
  for Python 2 only.
\<close>

definition twice_farm :: BuildFarm where
  "twice_farm =
     \<lparr>ros_distribution = ''noetic'', ubuntu_distribution = ''jammy'',
      release_package_xmls =
        [''q'' \<mapsto> [\<lparr>tag = ''depend'', etext = ''x'', attrib = DAList.Alist []\<rparr>,
                    \<lparr>tag = ''exec_depend'', etext = ''x'',
                     attrib = DAList.Alist [(''condition'', ''$ROS_PYTHON_VERSION == 2'')]\<rparr>]],
      repositories = [], dist_base = Map.empty, dist_python = Map.empty\<rparr>"

text \<open>Packages \<open>a\<close> and \<open>b\<close> depend on each other.\<close>

definition cyclic_farm :: BuildFarm where
  "cyclic_farm =
     \<lparr>ros_distribution = ''noetic'', ubuntu_distribution = ''jammy'',
      release_package_xmls =
        [''a'' \<mapsto> [\<lparr>tag = ''depend'', etext = ''b'', attrib = DAList.Alist []\<rparr>],
         ''b'' \<mapsto> [\<lparr>tag = ''depend'', etext = ''a'', attrib = DAList.Alist []\<rparr>]],
      repositories = [], dist_base = Map.empty, dist_python = Map.empty\<rparr>"



text \<open>
  Packages \<open>foo\<close> and \<open>bar\<close> are released from one repository \<open>common\<close>; \<open>foo\<close> depends
  on \<open>bar\<close>. Package \<open>stray\<close> is listed by no repository.
\<close>

definition common_farm :: BuildFarm where
  "common_farm =
     \<lparr>ros_distribution = ''noetic'', ubuntu_distribution = ''jammy'',
      release_package_xmls =
        [''foo'' \<mapsto> [\<lparr>tag = ''depend'', etext = ''bar'', attrib = DAList.Alist []\<rparr>]],
      repositories =
        [(''common'',
          \<lparr>release_packages = Some [''foo'', ''bar''],
           source = Some \<lparr>src_url = ''https://example.org/common.git'',
                          src_version = ''main''\<rparr>\<rparr>)],
      dist_base = Map.empty, dist_python = Map.empty\<rparr>"

section \<open>Properties\<close>

subsection \<open>Auxiliary facts\<close>

lemma enumerates_sorted_list_of_set:
  "enumerates (sorted_list_of_set :: name set \<Rightarrow> name list)"
  by (simp add: enumerates_def)

lemma enumerates_empty: "enumerates order \<Longrightarrow> order {} = []"
  unfolding enumerates_def by (drule spec [of _ "{}"]) simp

lemma get_package_dependencies_non_recursive:
  "get_package_dependencies fuel order vparse self p ig False =
     Some (direct_depends vparse self p)"
  by (cases fuel) (simp_all add: get_package_dependencies_body_def split: sum.splits)

lemma split_space_not_empty: "split_space v \<noteq> []"
  by (induction v) (auto split: list.splits)

lemma impl_of_Alist: "distinct (map fst xs) \<Longrightarrow> DAList.impl_of (DAList.Alist xs) = xs"
  by (simp add: Alist_inverse)


text \<open>Attributes other than a failing condition leave the set alone.\<close>

lemma check_attribute_keeps:
  assumes "\<not> (k = ''condition'' \<and> last_token v \<noteq> ''3'')"
  shows "\<exists>extra. check_attribute vparse self P d (k, v) (S, lg) = Inr (S, lg @ extra)"
  using assms
  by (auto simp: check_attribute_def Let_def split: prod.splits option.splits)

lemma check_attribute_removes:
  assumes "k = ''condition''" "last_token v \<noteq> ''3''" "etext d \<in> S"
  shows "check_attribute vparse self P d (k, v) (S, lg) = Inr (S - {etext d}, lg)"
  using assms by (simp add: check_attribute_def)

lemma attributes_without_condition:
  assumes "''condition'' \<notin> fst ` set as"
  shows "\<exists>extra. for_each (check_attribute vparse self P d) as (S, lg) = Inr (S, lg @ extra)"
  using assms
proof (induction as arbitrary: lg)
  case Nil
  then show ?case by simp
next
  case (Cons a as)
  obtain k v where a: "a = (k, v)" by (cases a)
  from Cons.prems a have k: "k \<noteq> ''condition''" by auto
  then obtain e1 where s1: "check_attribute vparse self P d (k, v) (S, lg) = Inr (S, lg @ e1)"
    using check_attribute_keeps [of k v vparse self P d S lg] by auto
  from Cons.prems have "''condition'' \<notin> fst ` set as" by auto
  from Cons.IH [OF this, of "lg @ e1"] obtain e2
    where "for_each (check_attribute vparse self P d) as (S, lg @ e1) = Inr (S, (lg @ e1) @ e2)"
    by auto
  with s1 a show ?case by (auto intro: exI [of _ "e1 @ e2"])
qed

lemma attributes_loop:
  assumes "distinct (map fst as)" "etext d \<in> S"
  shows "\<exists>extra. for_each (check_attribute vparse self P d) as (S, lg) =
           Inr (if list_all (\<lambda>(k, v). k = ''condition'' \<longrightarrow> last_token v = ''3'') as
                then S else S - {etext d}, lg @ extra)"
  using assms
proof (induction as arbitrary: lg)
  case Nil
  then show ?case by simp
next
  case (Cons a as)
  obtain k v where a: "a = (k, v)" by (cases a)
  show ?case
  proof (cases "k = ''condition'' \<and> last_token v \<noteq> ''3''")
    case True
    with Cons.prems a have nc: "''condition'' \<notin> fst ` set as" by auto
    from True Cons.prems
    have s1: "check_attribute vparse self P d (k, v) (S, lg) = Inr (S - {etext d}, lg)"
      by (simp add: check_attribute_removes)
    from attributes_without_condition [OF nc, of vparse self P d "S - {etext d}" lg]
    obtain e2 where
      "for_each (check_attribute vparse self P d) as (S - {etext d}, lg) =
         Inr (S - {etext d}, lg @ e2)" by auto
    with s1 a True show ?thesis by auto
  next
    case False
    then obtain e1 where
      s1: "check_attribute vparse self P d (k, v) (S, lg) = Inr (S, lg @ e1)"
      using check_attribute_keeps [of k v vparse self P d S lg] by auto
    from Cons.prems have "distinct (map fst as)" by simp
    from Cons.IH [OF this Cons.prems(2), of "lg @ e1"] obtain e2 where
      "for_each (check_attribute vparse self P d) as (S, lg @ e1) =
         Inr (if list_all (\<lambda>(k, v). k = ''condition'' \<longrightarrow> last_token v = ''3'') as
              then S else S - {etext d}, (lg @ e1) @ e2)" by auto
    with s1 a False show ?thesis by (auto intro: exI [of _ "e1 @ e2"])
  qed
qed

lemma add_depend_result:
  "\<exists>extra. add_depend vparse self P d (S, lg) =
     Inr (if edge_active d then insert (etext d) S else S - {etext d}, lg @ extra)"
proof -
  have dist: "distinct (map fst (DAList.impl_of (attrib d)))"
    using DAList.impl_of [of "attrib d"] by simp
  from attributes_loop [OF dist, of d "insert (etext d) S" vparse self P lg]
  show ?thesis by (auto simp: add_depend_def edge_active_def)
qed

text \<open>The first loop, from any starting set, in terms of the last edge for each name.\<close>

lemma depends_loop:
  "\<exists>D extra. for_each (add_depend vparse self P) es (S, lg) = Inr (D, lg @ extra) \<and>
     (\<forall>n. n \<in> D \<longleftrightarrow> (case last_edge es n of None \<Rightarrow> n \<in> S | Some d \<Rightarrow> edge_active d))"
proof (induction es arbitrary: S lg)
  case Nil
  then show ?case by simp
next
  case (Cons d es)
  let ?S1 = "if edge_active d then insert (etext d) S else S - {etext d}"
  obtain e1 where s1: "add_depend vparse self P d (S, lg) = Inr (?S1, lg @ e1)"
    using add_depend_result [of vparse self P d S lg] by auto
  from Cons.IH [of ?S1 "lg @ e1"] obtain D e2 where
    r: "for_each (add_depend vparse self P) es (?S1, lg @ e1) = Inr (D, (lg @ e1) @ e2)" and
    m: "\<forall>n. n \<in> D \<longleftrightarrow> (case last_edge es n of None \<Rightarrow> n \<in> ?S1 | Some d' \<Rightarrow> edge_active d')"
    by blast
  have "\<forall>n. n \<in> D \<longleftrightarrow> (case last_edge (d # es) n of None \<Rightarrow> n \<in> S | Some d' \<Rightarrow> edge_active d')"
    using m by (auto split: option.splits if_splits)
  with s1 r show ?case by (auto intro: exI [of _ "e1 @ e2"])
qed

lemma direct_depends_result:
  "\<exists>D lg. direct_depends vparse self P = Inr (D, lg) \<and>
     (\<forall>n. n \<in> D \<longleftrightarrow> (\<exists>d. last_edge (get_dependencies self P) n = Some d \<and> edge_active d))"
proof -
  from depends_loop [of vparse self P "get_dependencies self P" "{}" "[]"]
  obtain D extra where
    r: "for_each (add_depend vparse self P) (get_dependencies self P) ({}, []) = Inr (D, extra)" and
    m: "\<forall>n. n \<in> D \<longleftrightarrow> (case last_edge (get_dependencies self P) n of
                           None \<Rightarrow> n \<in> {} | Some d \<Rightarrow> edge_active d)"
    by auto
  have "\<forall>n. n \<in> D \<longleftrightarrow> (\<exists>d. last_edge (get_dependencies self P) n = Some d \<and> edge_active d)"
    using m by (auto split: option.splits)
  with r show ?thesis by (auto simp: direct_depends_def)
qed

lemma last_edge_Some: "last_edge es n = Some d \<Longrightarrow> d \<in> set es \<and> etext d = n"
  by (induction es) (auto split: option.splits if_splits)

lemma last_edge_append:
  "last_edge (xs @ ys) n = (case last_edge ys n of Some d \<Rightarrow> Some d | None \<Rightarrow> last_edge xs n)"
  by (induction xs) (auto split: option.splits)

lemma last_edge_None: "last_edge es n = None \<longleftrightarrow> n \<notin> etext ` set es"
  by (induction es) (auto split: option.splits)

lemma direct_depends_subset:
  assumes "direct_depends vparse self P = Inr (D, lg)"
  shows "D \<subseteq> etext ` set (get_dependencies self P)"
  using direct_depends_result [of vparse self P] assms last_edge_Some by fastforce

subsection \<open>Classification\<close>

text \<open>
  C1, as stated, fails: the classifier takes two independent intersections, so a name
  that is a key of both reference tables is in the system set and in the runtime set.
  Here both tables have the key \<open>x\<close> and the input is \<open>{x}\<close>.
\<close>

theorem classify_packages_overlap:
  "fst (classify_packages
          \<lparr>ros_distribution = ''noetic'', ubuntu_distribution = ''jammy'',
           release_package_xmls = Map.empty, repositories = [],
           dist_base = [''x'' \<mapsto> []], dist_python = [''x'' \<mapsto> []]\<rparr> {''x''})
   \<inter> fst (snd (classify_packages
          \<lparr>ros_distribution = ''noetic'', ubuntu_distribution = ''jammy'',
           release_package_xmls = Map.empty, repositories = [],
           dist_base = [''x'' \<mapsto> []], dist_python = [''x'' \<mapsto> []]\<rparr> {''x''}))
   \<noteq> {}"
  by (simp add: classify_packages_def Let_def)

text \<open>
  C1, amended: for every input set \<open>R\<close> and every pair of reference tables, the three
  sets returned by \<open>classify_packages\<close> have union \<open>R\<close>, the source set is disjoint from
  the system set and from the runtime set, and the system and runtime sets share exactly
  the names of \<open>R\<close> that are keys of both tables.
\<close>

theorem classify_packages_cover:
  assumes "classify_packages self R = (system, runtime, src)"
  shows "system \<union> runtime \<union> src = R \<and> system \<inter> src = {} \<and> runtime \<inter> src = {} \<and>
         system \<inter> runtime = R \<inter> dom (dist_base self) \<inter> dom (dist_python self)"
  using assms by (auto simp: classify_packages_def Let_def)

text \<open>
  C1, amended, on an example: one name in each table and one in neither.
\<close>

theorem classify_packages_cover_witness:
  "classify_packages
          \<lparr>ros_distribution = ''noetic'', ubuntu_distribution = ''jammy'',
           release_package_xmls = Map.empty, repositories = [],
           dist_base = [''boost'' \<mapsto> []], dist_python = [''python3-yaml'' \<mapsto> []]\<rparr>
          {''boost'', ''python3-yaml'', ''roscpp''}
     = ({''boost''}, {''python3-yaml''}, {''roscpp''})
   \<and> {''boost''} \<union> {''python3-yaml''} \<union> {''roscpp''} = {''boost'', ''python3-yaml'', ''roscpp''}
   \<and> {''boost''} \<inter> {''roscpp''} = ({} :: name set)
   \<and> {''python3-yaml''} \<inter> {''roscpp''} = ({} :: name set)"
proof -
  have h: "classify_packages
          \<lparr>ros_distribution = ''noetic'', ubuntu_distribution = ''jammy'',
           release_package_xmls = Map.empty, repositories = [],
           dist_base = [''boost'' \<mapsto> []], dist_python = [''python3-yaml'' \<mapsto> []]\<rparr>
          {''boost'', ''python3-yaml'', ''roscpp''}
     = ({''boost''}, {''python3-yaml''}, {''roscpp''})"
    by (auto simp: classify_packages_def Let_def)
  from classify_packages_cover [OF h] h show ?thesis by simp
qed

subsection \<open>Absent release descriptors\<close>

text \<open>
  C7: for a package whose release descriptor is absent from the distribution cache,
  \<open>get_package_version\<close> returns \<open>None\<close> (after a debug record) and \<open>get_dependencies\<close>
  returns the empty list; consequently \<open>get_package_dependencies\<close> returns the empty
  set, without an exception, at every recursion depth and for either value of
  \<open>recursive\<close>.
\<close>

theorem absent_descriptor:
  assumes "release_package_xmls self P = None" and "enumerates order"
  shows "get_package_version self P = (None, [Debug_version_not_found P]) \<and>
         get_dependencies self P = [] \<and>
         get_package_dependencies fuel order vparse self P ignore_depends rec =
           Some (Inr ({}, []))"
proof -
  have d: "get_dependencies self P = []"
    using assms(1) by (simp add: get_dependencies_def get_xml_data_by_tags_def)
  have v: "get_package_version self P = (None, [Debug_version_not_found P])"
    using assms(1) by (simp add: get_package_version_def get_xml_data_by_tags_def)
  have dd: "direct_depends vparse self P = Inr ({}, [])"
    by (simp add: direct_depends_def d)
  have "get_package_dependencies fuel order vparse self P ignore_depends rec =
           Some (Inr ({}, []))"
    by (cases fuel)
      (simp_all add: get_package_dependencies_body_def dd enumerates_empty [OF assms(2)])
  with d v show ?thesis by simp
qed

text \<open>C7 on an example: a cache with no release descriptor at all.\<close>

theorem absent_descriptor_witness:
  "release_package_xmls
      \<lparr>ros_distribution = ''noetic'', ubuntu_distribution = ''jammy'',
       release_package_xmls = Map.empty, repositories = [],
       dist_base = Map.empty, dist_python = Map.empty\<rparr> ''roscpp'' = None \<and>
   get_package_version
      \<lparr>ros_distribution = ''noetic'', ubuntu_distribution = ''jammy'',
       release_package_xmls = Map.empty, repositories = [],
       dist_base = Map.empty, dist_python = Map.empty\<rparr> ''roscpp''
     = (None, [Debug_version_not_found ''roscpp'']) \<and>
   get_package_dependencies 0 sorted_list_of_set release_version
      \<lparr>ros_distribution = ''noetic'', ubuntu_distribution = ''jammy'',
       release_package_xmls = Map.empty, repositories = [],
       dist_base = Map.empty, dist_python = Map.empty\<rparr> ''roscpp'' {} True = Some (Inr ({}, []))"
  using absent_descriptor [of "\<lparr>ros_distribution = ''noetic'', ubuntu_distribution = ''jammy'',
       release_package_xmls = Map.empty, repositories = [],
       dist_base = Map.empty, dist_python = Map.empty\<rparr>" "''roscpp''" sorted_list_of_set
       0 release_version "{}" True]
    enumerates_sorted_list_of_set
  by simp

subsection \<open>Condition filtering\<close>

lemma enumerates_single: "enumerates order \<Longrightarrow> order {a} = [a]"
proof -
  assume "enumerates order"
  then have s: "set (order {a}) = {a}" and d: "distinct (order {a})"
    by (simp_all add: enumerates_def)
  show ?thesis
  proof (cases "order {a}")
    case Nil
    with s show ?thesis by simp
  next
    case (Cons x xs)
    with s d have "x = a" "set xs \<subseteq> {a}" "a \<notin> set xs" by auto
    then have "xs = []" by (cases xs) auto
    with Cons \<open>x = a\<close> show ?thesis by simp
  qed
qed










lemma twice_farm_edges:
  "get_dependencies twice_farm ''q'' =
     [\<lparr>tag = ''depend'', etext = ''x'', attrib = DAList.Alist []\<rparr>,
      \<lparr>tag = ''exec_depend'', etext = ''x'',
       attrib = DAList.Alist [(''condition'', ''$ROS_PYTHON_VERSION == 2'')]\<rparr>]"
  by (simp add: get_dependencies_def get_xml_data_by_tags_def twice_farm_def
      tags_for_dependencies_def)

lemma twice_farm_q:
  "direct_depends vparse twice_farm ''q'' = Inr ({}, [])"
  by (simp add: direct_depends_def twice_farm_edges add_depend_def check_attribute_def
      impl_of_Alist last_token_def)

text \<open>
  C9: condition filtering removes by name. When \<open>P\<close> declares an active edge \<open>d1\<close> to a
  name and a later edge \<open>d2\<close> to the same name whose \<open>condition\<close> has a last token other
  than \<open>3\<close>, and no edge after \<open>d2\<close> targets the name, the name is not in the set the
  edge loop produces (the result for \<open>recursive=False\<close>): the target of the active edge
  \<open>d1\<close> is absent.
\<close>

theorem later_false_condition_removes_name:
  assumes "get_dependencies self P = es1 @ d1 # es2 @ d2 # es3"
    and "etext d1 = n" and "etext d2 = n" and "edge_active d1"
    and "(''condition'', v) \<in> set (DAList.impl_of (attrib d2))" and "last_token v \<noteq> ''3''"
    and "n \<notin> etext ` set es3"
  shows "\<exists>D lg. get_package_dependencies fuel order vparse self P ig False = Some (Inr (D, lg))
           \<and> n \<notin> D"
proof -
  obtain D lg where dd: "direct_depends vparse self P = Inr (D, lg)" and
    m: "\<forall>n. n \<in> D \<longleftrightarrow> (\<exists>d. last_edge (get_dependencies self P) n = Some d \<and> edge_active d)"
    using direct_depends_result [of vparse self P] by blast
  from assms(7) have "last_edge es3 n = None" by (simp add: last_edge_None)
  with assms(3) have "last_edge (d2 # es3) n = Some d2" by simp
  then have "last_edge (get_dependencies self P) n = Some d2"
    using last_edge_append [of "es1 @ d1 # es2" "d2 # es3" n] assms(1) by simp
  moreover from assms(5,6) have "\<not> edge_active d2"
    by (auto simp: edge_active_def list_all_iff)
  ultimately have "n \<notin> D" using m by simp
  with dd show ?thesis by (simp add: get_package_dependencies_non_recursive)
qed

text \<open>
  C9 on \<open>twice_farm\<close>: \<open>q\<close> has an unconditional edge to \<open>x\<close> followed by a Python 2 edge
  to \<open>x\<close>; the call returns the empty set, with or without recursion.
\<close>

theorem later_false_condition_removes_name_witness:
  "get_dependencies twice_farm ''q'' =
     [] @ \<lparr>tag = ''depend'', etext = ''x'', attrib = DAList.Alist []\<rparr> # [] @
     \<lparr>tag = ''exec_depend'', etext = ''x'',
      attrib = DAList.Alist [(''condition'', ''$ROS_PYTHON_VERSION == 2'')]\<rparr> # [] \<and>
   get_package_dependencies 0 sorted_list_of_set release_version twice_farm ''q'' {} False
     = Some (Inr ({}, [])) \<and>
   get_package_dependencies 0 sorted_list_of_set release_version twice_farm ''q'' {} True
     = Some (Inr ({}, []))"
proof -
  have e: "get_dependencies twice_farm ''q'' =
     [] @ \<lparr>tag = ''depend'', etext = ''x'', attrib = DAList.Alist []\<rparr> # [] @
     \<lparr>tag = ''exec_depend'', etext = ''x'',
      attrib = DAList.Alist [(''condition'', ''$ROS_PYTHON_VERSION == 2'')]\<rparr> # []"
    by (simp add: twice_farm_edges)
  have a: "edge_active \<lparr>tag = ''depend'', etext = ''x'', attrib = DAList.Alist []\<rparr>"
    by (simp add: edge_active_def impl_of_Alist)
  have c: "(''condition'', ''$ROS_PYTHON_VERSION == 2'') \<in> set (DAList.impl_of (attrib
      \<lparr>tag = ''exec_depend'', etext = ''x'',
       attrib = DAList.Alist [(''condition'', ''$ROS_PYTHON_VERSION == 2'')]\<rparr>))"
    by (simp add: impl_of_Alist)
  have t: "last_token ''$ROS_PYTHON_VERSION == 2'' \<noteq> ''3''"
    by (simp add: last_token_def)
  from later_false_condition_removes_name [OF e _ _ a c t, of "''x''" 0 sorted_list_of_set
      release_version "{}"]
  obtain D lg where
    r: "get_package_dependencies 0 sorted_list_of_set release_version twice_farm ''q'' {} False
          = Some (Inr (D, lg))" and "''x'' \<notin> D"
    by auto
  from r have "D = {}" "lg = []"
    by (simp_all add: get_package_dependencies_non_recursive twice_farm_q)
  moreover have "get_package_dependencies 0 sorted_list_of_set release_version twice_farm ''q''
      {} True = Some (Inr ({}, []))"
    by (simp add: get_package_dependencies_body_def twice_farm_q)
  ultimately show ?thesis using r e by simp
qed

subsection \<open>Termination of the recursive resolution\<close>

text \<open>A call that returns with some recursion depth returns the same with a greater one.\<close>

lemma expand_key_mono:
  assumes "\<And>k S r. c k S = Some r \<Longrightarrow> c' k S = Some r"
    and "expand_key c ig k st = Some r"
  shows "expand_key c' ig k st = Some r"
proof (cases st)
  case (Pair D lg)
  show ?thesis
  proof (cases "k \<in> ig")
    case True
    with assms(2) Pair show ?thesis by (simp add: expand_key_def)
  next
    case False
    with assms(2) Pair obtain r' where c: "c k D = Some r'"
      by (auto simp: expand_key_def split: option.splits)
    from assms(1) [OF c] c assms(2) Pair False show ?thesis
      by (simp add: expand_key_def)
  qed
qed

lemma for_each_call_mono:
  assumes "\<And>k S r. c k S = Some r \<Longrightarrow> c' k S = Some r"
  shows "for_each_call (expand_key c ig) keys st = Some r \<Longrightarrow>
         for_each_call (expand_key c' ig) keys st = Some r"
proof (induction keys arbitrary: st)
  case Nil
  then show ?case by simp
next
  case (Cons k ks)
  from Cons.prems obtain r1 where e: "expand_key c ig k st = Some r1"
    by (auto split: option.splits)
  from expand_key_mono [OF assms e] have e': "expand_key c' ig k st = Some r1" .
  show ?case
  proof (cases r1)
    case (Inl err)
    with e e' Cons.prems show ?thesis by auto
  next
    case (Inr st')
    with e Cons.prems have "for_each_call (expand_key c ig) ks st' = Some r" by simp
    from Cons.IH [OF this] e' Inr show ?thesis by simp
  qed
qed

lemma body_mono:
  assumes "\<And>k S r. c k S = Some r \<Longrightarrow> c' k S = Some r"
    and "get_package_dependencies_body c order vparse self P ig rc = Some r"
  shows "get_package_dependencies_body c' order vparse self P ig rc = Some r"
  using assms(2) for_each_call_mono [of c c', OF assms(1)]
  by (auto simp: get_package_dependencies_body_def split: sum.splits if_splits)

lemma fuel_step:
  "get_package_dependencies n order vparse self P ig rc = Some r \<Longrightarrow>
   get_package_dependencies (Suc n) order vparse self P ig rc = Some r"
proof (induction n arbitrary: P ig rc r)
  case 0
  have "\<And>k S r. (\<lambda>key depends. None) k S = Some r \<Longrightarrow>
      get_package_dependencies 0 order vparse self k S True = Some r" by simp
  from body_mono [of "\<lambda>key depends. None", OF this] 0 show ?case by simp
next
  case (Suc n)
  have "\<And>k S r. get_package_dependencies n order vparse self k S True = Some r \<Longrightarrow>
      get_package_dependencies (Suc n) order vparse self k S True = Some r"
    by (rule Suc.IH)
  from body_mono [of "\<lambda>key depends. get_package_dependencies n order vparse self key depends True"
      "\<lambda>key depends. get_package_dependencies (Suc n) order vparse self key depends True",
      OF this] Suc.prems
  show ?case by simp
qed

lemma fuel_mono:
  assumes "get_package_dependencies n order vparse self P ig rc = Some r" and "n \<le> m"
  shows "get_package_dependencies m order vparse self P ig rc = Some r"
  using assms(2)
proof (induction m rule: dec_induct)
  case base
  from assms(1) show ?case .
next
  case (step k)
  from fuel_step [OF step.IH] show ?case .
qed

text \<open>The second loop returns once every key it can expand returns.\<close>

lemma loop_terminates:
  assumes "\<forall>k \<in> set keys. \<forall>S. \<exists>n r. get_package_dependencies n order vparse self k S True = Some r"
  shows "\<exists>N r. for_each_call
           (expand_key (\<lambda>key depends. get_package_dependencies N order vparse self key depends True)
              ig) keys st = Some r"
  using assms
proof (induction keys arbitrary: st)
  case Nil
  then show ?case by simp
next
  case (Cons k ks)
  let ?c = "\<lambda>N key depends. get_package_dependencies N order vparse self key depends True"
  obtain D lg where st: "st = (D, lg)" by (cases st)
  from Cons.prems have "\<forall>S. \<exists>n r. ?c n k S = Some r" by simp
  then obtain n1 r1 where k1: "?c n1 k D = Some r1" by blast
  have tail: "\<And>st'. \<exists>N r. for_each_call (expand_key (?c N) ig) ks st' = Some r"
    using Cons.IH Cons.prems by simp
  have up: "\<And>N M st' r. for_each_call (expand_key (?c N) ig) ks st' = Some r \<Longrightarrow> N \<le> M \<Longrightarrow>
      for_each_call (expand_key (?c M) ig) ks st' = Some r"
  proof -
    fix N M st' r
    assume a: "for_each_call (expand_key (?c N) ig) ks st' = Some r" and le: "N \<le> M"
    have "\<And>k S r. ?c N k S = Some r \<Longrightarrow> ?c M k S = Some r"
      using fuel_mono le by blast
    from for_each_call_mono [of "?c N" "?c M", OF this a]
    show "for_each_call (expand_key (?c M) ig) ks st' = Some r" .
  qed
  show ?case
  proof (cases "k \<in> ig")
    case True
    from tail [of st] obtain N r where "for_each_call (expand_key (?c N) ig) ks st = Some r"
      by blast
    with True st have "for_each_call (expand_key (?c N) ig) (k # ks) st = Some r"
      by (simp add: expand_key_def)
    then show ?thesis by blast
  next
    case False
    show ?thesis
    proof (cases r1)
      case (Inl e)
      with k1 False st have "for_each_call (expand_key (?c n1) ig) (k # ks) st = Some (Inl e)"
        by (simp add: expand_key_def)
      then show ?thesis by blast
    next
      case (Inr cr)
      obtain cd clg where cr: "cr = (cd, clg)" by (cases cr)
      from tail [of "(D \<union> cd, lg @ clg)"] obtain N2 r where
        t: "for_each_call (expand_key (?c N2) ig) ks (D \<union> cd, lg @ clg) = Some r" by blast
      let ?M = "max n1 N2"
      from fuel_mono [OF k1, of ?M] have k1': "?c ?M k D = Some r1" by simp
      from up [OF t, of ?M] have
        t': "for_each_call (expand_key (?c ?M) ig) ks (D \<union> cd, lg @ clg) = Some r" by simp
      from k1' t' Inr cr False st
      have "for_each_call (expand_key (?c ?M) ig) (k # ks) st = Some r"
        by (simp add: expand_key_def)
      then show ?thesis by blast
    qed
  qed
qed

lemma wf_resolution_terminates:
  assumes "wf (declared self)" and "enumerates order"
  shows "\<forall>ig. \<exists>n r. get_package_dependencies n order vparse self P ig True = Some r"
  using assms(1)
proof (induction P rule: wf_induct_rule)
  case (less P)
  obtain D lg where dd: "direct_depends vparse self P = Inr (D, lg)"
    using direct_depends_result [of vparse self P] by blast
  from direct_depends_subset [OF dd]
  have sub: "D \<subseteq> etext ` set (get_dependencies self P)" .
  then have "finite D" by (rule finite_subset) simp
  with assms(2) have "set (order D) = D" by (simp add: enumerates_def)
  with sub have "\<forall>k \<in> set (order D). (k, P) \<in> declared self"
    by (auto simp: declared_def)
  with less.IH have
    "\<forall>k \<in> set (order D). \<forall>S. \<exists>n r. get_package_dependencies n order vparse self k S True = Some r"
    by blast
  from loop_terminates [OF this] have
    l: "\<And>ig. \<exists>N r. for_each_call
           (expand_key (\<lambda>key depends. get_package_dependencies N order vparse self key depends True)
              ig) (order D) (D, lg) = Some r" by blast
  show ?case
  proof
    fix ig
    from l [of ig] obtain N r where "for_each_call
           (expand_key (\<lambda>key depends. get_package_dependencies N order vparse self key depends True)
              ig) (order D) (D, lg) = Some r" by blast
    then have "get_package_dependencies (Suc N) order vparse self P ig True = Some r"
      by (simp add: get_package_dependencies_body_def dd)
    then show "\<exists>n r. get_package_dependencies n order vparse self P ig True = Some r" by blast
  qed
qed

lemma absent_no_edges:
  "release_package_xmls self p = None \<Longrightarrow> get_dependencies self p = []"
  by (simp add: get_dependencies_def get_xml_data_by_tags_def)

lemma finite_declared:
  assumes "finite (dom (release_package_xmls self))"
  shows "finite (declared self)"
proof -
  have "declared self \<subseteq>
      (\<Union>p \<in> dom (release_package_xmls self). etext ` set (get_dependencies self p) \<times> {p})"
  proof
    fix e
    assume e: "e \<in> declared self"
    obtain q p where qp: "e = (q, p)" by (cases e)
    with e have q: "q \<in> etext ` set (get_dependencies self p)" by (simp add: declared_def)
    then have "get_dependencies self p \<noteq> []" by auto
    then have "p \<in> dom (release_package_xmls self)"
      using absent_no_edges [of self p] by auto
    with q qp show "e \<in>
      (\<Union>p \<in> dom (release_package_xmls self). etext ` set (get_dependencies self p) \<times> {p})"
      by auto
  qed
  moreover have "finite
      (\<Union>p \<in> dom (release_package_xmls self). etext ` set (get_dependencies self p) \<times> {p})"
    using assms by auto
  ultimately show ?thesis by (rule finite_subset)
qed

lemma cyclic_farm_a: "direct_depends vparse cyclic_farm ''a'' = Inr ({''b''}, [])"
  by (simp add: direct_depends_def get_dependencies_def get_xml_data_by_tags_def
      cyclic_farm_def tags_for_dependencies_def add_depend_def impl_of_Alist)

lemma cyclic_farm_b: "direct_depends vparse cyclic_farm ''b'' = Inr ({''a''}, [])"
  by (simp add: direct_depends_def get_dependencies_def get_xml_data_by_tags_def
      cyclic_farm_def tags_for_dependencies_def add_depend_def impl_of_Alist)

lemma cyclic_farm_diverges:
  assumes "enumerates order"
  shows "(''b'' \<notin> S \<longrightarrow> get_package_dependencies n order vparse cyclic_farm ''a'' S True = None) \<and>
         (''a'' \<notin> S \<longrightarrow> get_package_dependencies n order vparse cyclic_farm ''b'' S True = None)"
proof (induction n arbitrary: S)
  case 0
  show ?case
    by (simp add: get_package_dependencies_body_def cyclic_farm_a cyclic_farm_b
        enumerates_single [OF assms] expand_key_def)
next
  case (Suc n)
  from Suc.IH [of "{''b''}"] Suc.IH [of "{''a''}"]
  show ?case
    by (simp add: get_package_dependencies_body_def cyclic_farm_a cyclic_farm_b
        enumerates_single [OF assms] expand_key_def)
qed

text \<open>
  C3: when the declared dependency graph of the metadata snapshot is acyclic (and the
  snapshot, a dictionary, has finitely many release descriptors), the recursive
  \<open>get_package_dependencies(P, exclude)\<close> returns for every package \<open>P\<close> and every
  \<open>exclude\<close>: some recursion depth is enough, and every greater depth gives the same
  result. The recursive call passes only the caller's current set as \<open>exclude\<close>, so a
  cycle across levels is not cut: for \<open>cyclic_farm\<close>, where \<open>a\<close> and \<open>b\<close> depend on each
  other, no recursion depth lets the call on \<open>a\<close> return.
\<close>

theorem acyclic_resolution_terminates:
  "(enumerates order \<and> finite (dom (release_package_xmls self)) \<and> acyclic (declared self) \<longrightarrow>
      (\<exists>n r. \<forall>m\<ge>n. get_package_dependencies m order vparse self P exclude True = Some r)) \<and>
   (enumerates order \<longrightarrow>
      (\<forall>n. get_package_dependencies n order vparse cyclic_farm ''a'' {} True = None))"
proof (intro conjI impI)
  assume a: "enumerates order \<and> finite (dom (release_package_xmls self)) \<and>
    acyclic (declared self)"
  then have "wf (declared self)"
    using finite_declared finite_acyclic_wf by blast
  from wf_resolution_terminates [OF this, of order vparse P] a
  obtain n r where "get_package_dependencies n order vparse self P exclude True = Some r"
    by blast
  then have "\<forall>m\<ge>n. get_package_dependencies m order vparse self P exclude True = Some r"
    using fuel_mono by blast
  then show "\<exists>n r. \<forall>m\<ge>n. get_package_dependencies m order vparse self P exclude True = Some r"
    by blast
next
  assume e: "enumerates order"
  show "\<forall>n. get_package_dependencies n order vparse cyclic_farm ''a'' {} True = None"
  proof
    fix n
    from cyclic_farm_diverges [OF e, of "{}" n vparse]
    show "get_package_dependencies n order vparse cyclic_farm ''a'' {} True = None" by simp
  qed
qed

lemma conditional_farm_acyclic: "acyclic (declared conditional_farm)"
proof (rule acyclicI_order [where f = "\<lambda>p. if p = ''p'' then 0 else if p = ''y'' then 1
    else (2::nat)"])
  fix q p
  assume "(q, p) \<in> declared conditional_farm"
  then have "(q, p) \<in> {(''x'', ''p''), (''y'', ''p''), (''x'', ''y'')}"
    by (auto simp: declared_def get_dependencies_def get_xml_data_by_tags_def
        conditional_farm_def tags_for_dependencies_def split: if_splits)
  then show "(if p = ''p'' then 0 else if p = ''y'' then 1 else (2::nat))
      < (if q = ''p'' then 0 else if q = ''y'' then 1 else (2::nat))"
    by auto
qed

text \<open>
  C3 on examples: the acyclic \<open>conditional_farm\<close> (\<open>p\<close> to \<open>x\<close> and \<open>y\<close>, \<open>y\<close> to \<open>x\<close>) and
  the cyclic \<open>cyclic_farm\<close> at depth 1000.
\<close>

theorem acyclic_resolution_terminates_witness:
  "(\<exists>n r. get_package_dependencies n sorted_list_of_set release_version conditional_farm
            ''p'' {} True = Some r) \<and>
   get_package_dependencies 1000 sorted_list_of_set release_version cyclic_farm ''a'' {} True
     = None"
proof -
  have f: "finite (dom (release_package_xmls conditional_farm))"
    by (simp add: conditional_farm_def)
  from acyclic_resolution_terminates [of sorted_list_of_set conditional_farm release_version
      "''p''" "{}"] enumerates_sorted_list_of_set f conditional_farm_acyclic
  show ?thesis by blast
qed

subsection \<open>Version bounds\<close>











subsection \<open>OS package names\<close>






subsection \<open>The write loop\<close>

lemma write_targets_Comment:
  "write_targets (Comment s # rest) W =
     (Comment s # fst (write_targets rest W), snd (write_targets rest W))"
  by (cases "write_targets rest W") simp

lemma write_targets_skip:
  "target t \<in> W \<Longrightarrow> write_targets (Target t # rest) W =
     (fst (write_targets rest W), Debug_skip_duplicated (target t) # snd (write_targets rest W))"
  by (cases "write_targets rest W") simp

lemma write_targets_keep:
  "target t \<notin> W \<Longrightarrow> write_targets (Target t # rest) W =
     (Target t # fst (write_targets rest (insert (target t) W)),
      snd (write_targets rest (insert (target t) W)))"
  by (cases "write_targets rest (insert (target t) W)") simp

lemma write_targets_first:
  "filter (\<lambda>t. target t = x) (targets_of (fst (write_targets items W))) =
     (if x \<in> W then [] else take 1 (filter (\<lambda>t. target t = x) (targets_of items)))"
proof (induction items W rule: write_targets.induct)
  case (1 W)
  show ?case by simp
next
  case (2 s rest W)
  then show ?case by (simp only: write_targets_Comment fst_conv targets_of.simps)
next
  case (3 t rest W)
  show ?case
  proof (cases "target t \<in> W")
    case True
    with 3(1) show ?thesis by (auto simp: write_targets_skip simp del: write_targets.simps)
  next
    case False
    with 3(2) show ?thesis by (auto simp: write_targets_keep simp del: write_targets.simps)
  qed
qed

lemma write_targets_distinct:
  "distinct (map target (targets_of (fst (write_targets items W)))) \<and>
   (\<forall>t \<in> set (targets_of (fst (write_targets items W))). target t \<notin> W)"
proof (induction items W rule: write_targets.induct)
  case (1 W)
  show ?case by simp
next
  case (2 s rest W)
  then show ?case by (simp add: write_targets_Comment del: write_targets.simps)
next
  case (3 t rest W)
  show ?case
  proof (cases "target t \<in> W")
    case True
    with 3(1) show ?thesis by (auto simp: write_targets_skip simp del: write_targets.simps)
  next
    case False
    with 3(2) show ?thesis by (auto simp: write_targets_keep simp del: write_targets.simps)
  qed
qed

lemma write_targets_log:
  "length (filter (\<lambda>t. target t = x) (targets_of items)) =
     length (filter (\<lambda>t. target t = x) (targets_of (fst (write_targets items W)))) +
     length (filter (\<lambda>e. e = Debug_skip_duplicated x) (snd (write_targets items W)))"
proof (induction items W rule: write_targets.induct)
  case (1 W)
  show ?case by simp
next
  case (2 s rest W)
  then show ?case by (simp only: write_targets_Comment fst_conv snd_conv targets_of.simps)
next
  case (3 t rest W)
  show ?case
  proof (cases "target t \<in> W")
    case True
    with 3(1) show ?thesis by (simp add: write_targets_skip del: write_targets.simps)
  next
    case False
    with 3(2) show ?thesis by (auto simp: write_targets_keep simp del: write_targets.simps)
  qed
qed

lemma write_targets_log_kind:
  "set (snd (write_targets items W)) \<subseteq> range Debug_skip_duplicated"
proof (induction items W rule: write_targets.induct)
  case (1 W)
  show ?case by simp
next
  case (2 s rest W)
  then show ?case by (simp only: write_targets_Comment snd_conv)
next
  case (3 t rest W)
  show ?case
  proof (cases "target t \<in> W")
    case True
    with 3(1) show ?thesis by (simp add: write_targets_skip del: write_targets.simps)
  next
    case False
    with 3(2) show ?thesis by (simp add: write_targets_keep del: write_targets.simps)
  qed
qed

lemma gen_makefile_written:
  assumes "gen_makefile order vparse self main_targets build_dep = Inr (out, lg)"
  shows "\<exists>items lg0. accumulate_targets order vparse self main_targets build_dep = Inr (items, lg0)
           \<and> out = fst (write_targets items {}) \<and> lg = lg0 @ snd (write_targets items {})"
  using assms
  by (auto simp: gen_makefile_def split: sum.splits prod.splits)

text \<open>
  C4: in the plan that \<open>gen_makefile\<close> writes, the target identifiers are distinct.
  For every identifier, the targets written under it are the first accumulated target
  with that identifier, unchanged, and nothing else; every later accumulated target
  with the identifier is dropped and accounted for by one
  \<open>skip duplicated target\<close> record in the log.
\<close>

theorem written_targets_unique:
  assumes "gen_makefile order vparse self main_targets build_dep = Inr (out, lg)"
  shows "distinct (map target (targets_of out)) \<and>
    (\<exists>items lg0 lg1.
       accumulate_targets order vparse self main_targets build_dep = Inr (items, lg0) \<and>
       lg = lg0 @ lg1 \<and>
       (\<forall>x. filter (\<lambda>t. target t = x) (targets_of out) =
             take 1 (filter (\<lambda>t. target t = x) (targets_of items))) \<and>
       (\<forall>x. length (filter (\<lambda>t. target t = x) (targets_of items)) =
             length (filter (\<lambda>t. target t = x) (targets_of out)) +
             length (filter (\<lambda>e. e = Debug_skip_duplicated x) lg1)) \<and>
       set lg1 \<subseteq> range Debug_skip_duplicated)"
proof -
  from gen_makefile_written [OF assms] obtain items lg0 where
    a: "accumulate_targets order vparse self main_targets build_dep = Inr (items, lg0)" and
    o: "out = fst (write_targets items {})" and
    l: "lg = lg0 @ snd (write_targets items {})"
    by blast
  have "distinct (map target (targets_of out))"
    using write_targets_distinct [of items "{}"] o by simp
  moreover have "\<forall>x. filter (\<lambda>t. target t = x) (targets_of out) =
             take 1 (filter (\<lambda>t. target t = x) (targets_of items))"
    using write_targets_first [of _ items "{}"] o by simp
  moreover have "\<forall>x. length (filter (\<lambda>t. target t = x) (targets_of items)) =
             length (filter (\<lambda>t. target t = x) (targets_of out)) +
             length (filter (\<lambda>e. e = Debug_skip_duplicated x) (snd (write_targets items {})))"
    using write_targets_log [of _ items "{}"] o by simp
  ultimately show ?thesis
    using a l write_targets_log_kind [of items "{}"] by blast
qed

lemma common_foo: "direct_depends vparse common_farm ''foo'' = Inr ({''bar''}, [])"
  by (simp add: direct_depends_def get_dependencies_def get_xml_data_by_tags_def
      common_farm_def tags_for_dependencies_def add_depend_def impl_of_Alist)

lemma common_bar: "direct_depends vparse common_farm ''bar'' = Inr ({}, [])"
  by (simp add: direct_depends_def get_dependencies_def get_xml_data_by_tags_def
      common_farm_def)

lemma common_stray: "direct_depends vparse common_farm ''stray'' = Inr ({}, [])"
  by (simp add: direct_depends_def get_dependencies_def get_xml_data_by_tags_def
      common_farm_def)

lemma common_repository:
  "get_repository common_farm ''foo'' =
     ((Some ''common'', Some \<lparr>release_packages = Some [''foo'', ''bar''],
           source = Some \<lparr>src_url = ''https://example.org/common.git'',
                          src_version = ''main''\<rparr>\<rparr>), [Debug_found_in ''foo'' ''common''])"
  "get_repository common_farm ''bar'' =
     ((Some ''common'', Some \<lparr>release_packages = Some [''foo'', ''bar''],
           source = Some \<lparr>src_url = ''https://example.org/common.git'',
                          src_version = ''main''\<rparr>\<rparr>), [Debug_found_in ''bar'' ''common''])"
  "get_repository common_farm ''stray'' = ((None, None), [])"
  by (simp_all add: get_repository_def common_farm_def)

lemma common_build_dir: "build_dir common_farm = ''/root/noetic_build/src''"
  by (simp add: build_dir_def common_farm_def)

lemma order_foo_bar: "sorted_list_of_set {''foo'', ''bar''} = [''bar'', ''foo'']"
  by code_simp

lemma order_small:
  "sorted_list_of_set {''foo''} = [''foo'']" "sorted_list_of_set {''bar''} = [''bar'']"
  "sorted_list_of_set {''stray''} = [''stray'']" "sorted_list_of_set ({}::name set) = []"
  by simp_all

lemma common_accumulate:
  "accumulate_targets sorted_list_of_set release_version common_farm {''foo''} {''foo'', ''bar''} =
     Inr (fixed_targets sorted_list_of_set common_farm {''foo''} {''foo'', ''bar''} @
          [Target \<lparr>target = ''/root/noetic_build/src/common/.git'', depends = [],
                   commands = [''git clone https://example.org/common.git `dirname $@` -b main --recursive''],
                   comment = [], phony = False, alias_name = None\<rparr>,
           Target \<lparr>target = ''/tmp/built_packages/bar'',
                   depends = [''/root/noetic_build/src/common/.git'',
                              ''/root/.ros/rosdep/sources.cache''],
                   commands = [''bash build_ros_package.sh /root/noetic_build/src/common bar && touch $@''],
                   comment = [], phony = False, alias_name = Some ''bar''\<rparr>,
           Target \<lparr>target = ''/root/noetic_build/src/common/.git'', depends = [],
                   commands = [''git clone https://example.org/common.git `dirname $@` -b main --recursive''],
                   comment = [], phony = False, alias_name = None\<rparr>,
           Target \<lparr>target = ''/tmp/built_packages/foo'',
                   depends = [''/root/noetic_build/src/common/.git'',
                              ''/tmp/built_packages/bar'',
                              ''/root/.ros/rosdep/sources.cache''],
                   commands = [''bash build_ros_package.sh /root/noetic_build/src/common foo && touch $@''],
                   comment = [], phony = False, alias_name = Some ''foo''\<rparr>,
           Target (clean_target common_farm)],
          [Debug_found_in ''bar'' ''common'', Debug_found_in ''foo'' ''common''])"
  by (simp add: accumulate_targets_def build_package_def common_foo common_bar order_foo_bar
      order_small common_repository package_target_def BuildPackage_makefile_targets_def
      makefile_target_def common_build_dir repo_dir_def)

lemmas plan_defs =
  fixed_targets_def main_target_def env_targets_def python_tools_def python_build_packages_def
  python_packages_def BuildPackage_makefile_targets_def makefile_target_def clean_target_def
  common_build_dir env_dep_def repo_dir_def replace_underscore_def

lemma common_written:
  "map_sum (\<lambda>e. e) (\<lambda>(out, lg). (map target (targets_of out), lg))
     (gen_makefile sorted_list_of_set release_version common_farm {''foo''} {''foo'', ''bar''}) =
   Inr ([''all'', ''env_targets'', ''/tmp/deb/.touch'', ''/tmp/built_packages/.touch'',
         ''/root/noetic_build/src/.touch'', ''python_tools'', ''/etc/ros/rosdep/sources.list.d'',
         ''/root/.ros/rosdep/sources.cache'',
         ''/root/noetic_build/src/ros_release_python/.git'',
         ''/usr/local/bin/ros_release_python'',
         ''/root/noetic_build/src/catkin_pkg/.git'', ''/tmp/built_packages/catkin-pkg'',
         ''/root/noetic_build/src/rospkg/.git'', ''/tmp/built_packages/rospkg'',
         ''/root/noetic_build/src/rosdistro/.git'', ''/tmp/built_packages/rosdistro'',
         ''/root/noetic_build/src/rosdep/.git'', ''/tmp/built_packages/rosdep'',
         ''/root/noetic_build/src/common/.git'', ''/tmp/built_packages/bar'',
         ''/tmp/built_packages/foo'', ''clean''],
        [Debug_found_in ''bar'' ''common'', Debug_found_in ''foo'' ''common'',
         Debug_skip_duplicated ''/root/noetic_build/src/common/.git''])"
  by (simp add: gen_makefile_def common_accumulate plan_defs)

text \<open>
  C4 on \<open>common_farm\<close>: \<open>foo\<close> and \<open>bar\<close> come from the same repository, so the checkout
  target of \<open>common\<close> is accumulated twice; it is written once, and the second one is
  logged as skipped.
\<close>

theorem written_targets_unique_witness:
  "map_sum (\<lambda>e. e) (\<lambda>(out, lg). (map target (targets_of out), lg))
     (gen_makefile sorted_list_of_set release_version common_farm {''foo''} {''foo'', ''bar''}) =
   Inr ([''all'', ''env_targets'', ''/tmp/deb/.touch'', ''/tmp/built_packages/.touch'',
         ''/root/noetic_build/src/.touch'', ''python_tools'', ''/etc/ros/rosdep/sources.list.d'',
         ''/root/.ros/rosdep/sources.cache'',
         ''/root/noetic_build/src/ros_release_python/.git'',
         ''/usr/local/bin/ros_release_python'',
         ''/root/noetic_build/src/catkin_pkg/.git'', ''/tmp/built_packages/catkin-pkg'',
         ''/root/noetic_build/src/rospkg/.git'', ''/tmp/built_packages/rospkg'',
         ''/root/noetic_build/src/rosdistro/.git'', ''/tmp/built_packages/rosdistro'',
         ''/root/noetic_build/src/rosdep/.git'', ''/tmp/built_packages/rosdep'',
         ''/root/noetic_build/src/common/.git'', ''/tmp/built_packages/bar'',
         ''/tmp/built_packages/foo'', ''clean''],
        [Debug_found_in ''bar'' ''common'', Debug_found_in ''foo'' ''common'',
         Debug_skip_duplicated ''/root/noetic_build/src/common/.git'']) \<and>
   distinct (map target (targets_of (fst (projr
     (gen_makefile sorted_list_of_set release_version common_farm {''foo''}
        {''foo'', ''bar''})))))"
proof -
  obtain out lg where h: "gen_makefile sorted_list_of_set release_version common_farm {''foo''}
      {''foo'', ''bar''} = Inr (out, lg)"
    using common_written
    by (cases "gen_makefile sorted_list_of_set release_version common_farm {''foo''}
      {''foo'', ''bar''}") auto
  from written_targets_unique [OF h] have "distinct (map target (targets_of out))" by blast
  with h common_written show ?thesis by simp
qed

subsection \<open>The main target\<close>

lemma digit_value_digit_char: "d < 10 \<Longrightarrow> digit_value (digit_char d) = d"
proof -
  assume "d < 10"
  then have "d \<in> {0, 1, 2, 3, 4, 5, 6, 7, 8, 9}" by auto
  then show ?thesis
    by (auto simp: digit_value_def digit_char_def)
qed

lemma nat_of_string_snoc:
  "nat_of_string (xs @ [c]) = 10 * nat_of_string xs + digit_value c"
  by (simp add: nat_of_string_def)

lemma nat_of_string_str_nat: "nat_of_string (str_nat n) = n"
proof (induction n rule: str_nat.induct)
  case (1 n)
  show ?case
  proof (cases "n < 10")
    case True
    then show ?thesis
      using nat_of_string_snoc [of "[]" "digit_char n"]
      by (simp add: str_nat.simps [of n] digit_value_digit_char nat_of_string_def)
  next
    case False
    with 1 have "nat_of_string (str_nat (n div 10)) = n div 10" by simp
    with False show ?thesis
      by (simp add: str_nat.simps [of n] nat_of_string_snoc digit_value_digit_char)
  qed
qed

lemma accumulate_targets_head:
  assumes "accumulate_targets order vparse self main_targets build_dep = Inr (items, lg0)"
  shows "\<exists>r. items = Comment ''# main target'' #
                      Target (main_target order main_targets build_dep) # r"
  using assms
  by (auto simp: accumulate_targets_def fixed_targets_def split: sum.splits prod.splits)

lemma main_target_all: "target (main_target order main_targets build_dep) = ''all''"
  by (simp add: main_target_def)

text \<open>
  C5: whenever \<open>gen_makefile\<close> writes a plan for a build-from-source set of size \<open>N\<close>,
  the plan starts with the comment of the main target and the target \<open>all\<close>, which is
  the only target \<open>all\<close> of the plan; its prerequisites are exactly the root targets
  supplied, and its single command ends in the decimal numeral of \<open>N + 8\<close>.
\<close>

theorem main_target_reports_total:
  assumes "gen_makefile order vparse self main_targets build_dep = Inr (out, lg)"
    and "enumerates order" and "finite main_targets"
  shows "(\<exists>rest. out = Comment ''# main target'' #
                       Target (main_target order main_targets build_dep) # rest \<and>
                 ''all'' \<notin> target ` set (targets_of rest)) \<and>
         target (main_target order main_targets build_dep) = ''all'' \<and>
         set (depends (main_target order main_targets build_dep)) = main_targets \<and>
         (\<exists>total. commands (main_target order main_targets build_dep) =
              [''@echo built packages : `ls -1 /tmp/deb/* | wc -l` / '' @ total] \<and>
            total = str_nat (card build_dep + 8) \<and>
            nat_of_string total = card build_dep + 8)"
proof -
  let ?m = "main_target order main_targets build_dep"
  from gen_makefile_written [OF assms(1)] obtain items lg0 where
    a: "accumulate_targets order vparse self main_targets build_dep = Inr (items, lg0)" and
    o: "out = fst (write_targets items {})"
    by blast
  from accumulate_targets_head [OF a] obtain r where
    i: "items = Comment ''# main target'' # Target ?m # r" by blast
  let ?rest = "fst (write_targets r {target ?m})"
  from o i have out: "out = Comment ''# main target'' # Target ?m # ?rest"
    by (simp add: write_targets_Comment write_targets_keep del: write_targets.simps)
  from write_targets_distinct [of r "{target ?m}"]
  have "''all'' \<notin> target ` set (targets_of ?rest)"
    by (auto simp: main_target_all)
  with out have 1: "\<exists>rest. out = Comment ''# main target'' # Target ?m # rest \<and>
                 ''all'' \<notin> target ` set (targets_of rest)" by blast
  from assms(2,3) have 2: "set (depends ?m) = main_targets"
    by (simp add: main_target_def enumerates_def)
  have 3: "\<exists>total. commands ?m =
              [''@echo built packages : `ls -1 /tmp/deb/* | wc -l` / '' @ total] \<and>
            total = str_nat (card build_dep + 8) \<and>
            nat_of_string total = card build_dep + 8"
    by (simp add: main_target_def nat_of_string_str_nat)
  from 1 2 3 show ?thesis by (simp add: main_target_all)
qed

text \<open>
  C5 on \<open>common_farm\<close>: for the two packages \<open>foo\<close> and \<open>bar\<close> and the root target
  \<open>foo\<close>, the plan starts with the target \<open>all\<close>, which depends on \<open>foo\<close> and reports a
  total of 10.
\<close>

theorem main_target_reports_total_witness:
  "map_sum (\<lambda>e. e) (\<lambda>(out, lg). take 2 out)
     (gen_makefile sorted_list_of_set release_version common_farm {''foo''} {''foo'', ''bar''}) =
   Inr [Comment ''# main target'',
        Target \<lparr>target = ''all'', depends = [''foo''],
                commands = [''@echo built packages : `ls -1 /tmp/deb/* | wc -l` / 10''],
                comment = [], phony = True, alias_name = None\<rparr>] \<and>
   card {''foo'', ''bar''} + 8 = (10 :: nat)"
proof -
  obtain out lg where h: "gen_makefile sorted_list_of_set release_version common_farm {''foo''}
      {''foo'', ''bar''} = Inr (out, lg)"
    using common_written
    by (cases "gen_makefile sorted_list_of_set release_version common_farm {''foo''}
      {''foo'', ''bar''}") auto
  have f: "finite {''foo''}" by simp
  from main_target_reports_total [OF h enumerates_sorted_list_of_set f]
  obtain rest where
    "out = Comment ''# main target'' #
           Target (main_target sorted_list_of_set {''foo''} {''foo'', ''bar''}) # rest"
    by blast
  moreover have "main_target sorted_list_of_set {''foo''} {''foo'', ''bar''} =
      \<lparr>target = ''all'', depends = [''foo''],
       commands = [''@echo built packages : `ls -1 /tmp/deb/* | wc -l` / 10''],
       comment = [], phony = True, alias_name = None\<rparr>"
    by (simp add: main_target_def order_small str_nat.simps digit_char_def)
  ultimately show ?thesis using h by simp
qed

subsection \<open>Packages without a repository\<close>

lemma get_repository_loop_shape:
  "(get_repository_loop p repos = ((None, None), []) \<and>
      \<not> list_ex (\<lambda>(k, v). p \<in> set (case release_packages v of None \<Rightarrow> [k] | Some ps \<Rightarrow> ps))
          repos) \<or>
   (\<exists>k v. get_repository_loop p repos = ((Some k, Some v), [Debug_found_in p k]) \<and>
      list_ex (\<lambda>(k, v). p \<in> set (case release_packages v of None \<Rightarrow> [k] | Some ps \<Rightarrow> ps))
          repos)"
  by (induction p repos rule: get_repository_loop.induct) auto

lemma get_repository_unlisted:
  "\<not> listed self p \<Longrightarrow> get_repository self p = ((None, None), [])"
  using get_repository_loop_shape [of p "repositories self"]
  by (auto simp: listed_def get_repository_def)

lemma get_repository_listed:
  "listed self p \<Longrightarrow>
     \<exists>k v. get_repository self p = ((Some k, Some v), [Debug_found_in p k])"
  using get_repository_loop_shape [of p "repositories self"]
  by (auto simp: listed_def get_repository_def)

lemma build_package_unlisted:
  assumes "\<not> listed self p"
  shows "build_package order vparse self build_dep p st =
           Inl (TypeError ''NoneType object is not subscriptable'')"
proof -
  obtain D lg where "direct_depends vparse self p = Inr (D, lg)"
    using direct_depends_result [of vparse self p] by blast
  with get_repository_unlisted [OF assms] show ?thesis
    by (cases st) (simp add: build_package_def)
qed

lemma build_package_listed:
  assumes "listed self p"
  shows "build_package order vparse self build_dep p st \<noteq>
           Inl (TypeError ''NoneType object is not subscriptable'')"
proof -
  obtain D lg where "direct_depends vparse self p = Inr (D, lg)"
    using direct_depends_result [of vparse self p] by blast
  moreover from get_repository_listed [OF assms] obtain k v where
    "get_repository self p = ((Some k, Some v), [Debug_found_in p k])" by blast
  ultimately show ?thesis
    by (cases st) (simp add: build_package_def split: option.splits)
qed

lemma for_each_fails:
  assumes "x \<in> set xs" and "\<And>st. \<exists>e. body x st = Inl e"
  shows "\<exists>e. for_each body xs st = Inl e"
  using assms(1)
proof (induction xs arbitrary: st)
  case Nil
  then show ?case by simp
next
  case (Cons y ys)
  show ?case
  proof (cases "body y st")
    case (Inl e)
    then show ?thesis by simp
  next
    case (Inr st')
    with assms(2) [of st] have "y \<noteq> x" by auto
    with Cons.prems have "x \<in> set ys" by simp
    from Cons.IH [OF this, of st'] Inr show ?thesis by simp
  qed
qed

lemma for_each_avoids:
  assumes "\<And>x st. x \<in> set xs \<Longrightarrow> body x st \<noteq> Inl err"
  shows "for_each body xs st \<noteq> Inl err"
  using assms
proof (induction xs arbitrary: st)
  case Nil
  show ?case by simp
next
  case (Cons y ys)
  show ?case
  proof (cases "body y st")
    case (Inl e)
    with Cons.prems [of y st] show ?thesis by simp
  next
    case (Inr st')
    have "for_each body ys st' \<noteq> Inl err"
      using Cons.IH Cons.prems by simp
    with Inr show ?thesis by simp
  qed
qed

text \<open>
  C10: \<open>get_repository\<close> returns \<open>(None, None)\<close> exactly for a package that no
  repository's release package list contains. On such a package the loop of
  \<open>gen_makefile\<close> subscripts \<open>None\<close> and raises \<open>TypeError\<close>, so \<open>gen_makefile\<close> ends in
  an exception when its build-from-source set has such a member. When every member is
  listed by some repository, \<open>gen_makefile\<close> does not end in that exception.
\<close>

theorem unlisted_package_fails:
  "(get_repository self p = ((None, None), []) \<longleftrightarrow> \<not> listed self p) \<and>
   (\<not> listed self p \<longrightarrow>
      build_package order vparse self build_dep p st =
        Inl (TypeError ''NoneType object is not subscriptable'')) \<and>
   (enumerates order \<and> finite build_dep \<and> p \<in> build_dep \<and> \<not> listed self p \<longrightarrow>
      (\<exists>e. gen_makefile order vparse self main_targets build_dep = Inl e)) \<and>
   (enumerates order \<and> finite build_dep \<and> (\<forall>q \<in> build_dep. listed self q) \<longrightarrow>
      gen_makefile order vparse self main_targets build_dep \<noteq>
        Inl (TypeError ''NoneType object is not subscriptable''))"
proof (intro conjI impI)
  show "get_repository self p = ((None, None), []) \<longleftrightarrow> \<not> listed self p"
    using get_repository_unlisted [of self p] get_repository_listed [of self p] by auto
next
  assume "\<not> listed self p"
  then show "build_package order vparse self build_dep p st =
        Inl (TypeError ''NoneType object is not subscriptable'')"
    by (rule build_package_unlisted)
next
  assume a: "enumerates order \<and> finite build_dep \<and> p \<in> build_dep \<and> \<not> listed self p"
  then have m: "p \<in> set (order build_dep)" by (simp add: enumerates_def)
  have b: "\<And>st. \<exists>e. build_package order vparse self build_dep p st = Inl e"
    using build_package_unlisted [of self p order vparse build_dep] a by simp
  from for_each_fails [of p "order build_dep" "build_package order vparse self build_dep",
      OF m b, of "([], [])"]
  obtain e where
    "for_each (build_package order vparse self build_dep) (order build_dep) ([], []) = Inl e"
    by auto
  then show "\<exists>e. gen_makefile order vparse self main_targets build_dep = Inl e"
    by (simp add: gen_makefile_def accumulate_targets_def)
next
  assume a: "enumerates order \<and> finite build_dep \<and> (\<forall>q \<in> build_dep. listed self q)"
  then have so: "set (order build_dep) = build_dep" by (simp add: enumerates_def)
  have "\<And>x st. x \<in> set (order build_dep) \<Longrightarrow>
      build_package order vparse self build_dep x st \<noteq>
        Inl (TypeError ''NoneType object is not subscriptable'')"
  proof -
    fix x st
    assume "x \<in> set (order build_dep)"
    with so a have "listed self x" by simp
    then show "build_package order vparse self build_dep x st \<noteq>
        Inl (TypeError ''NoneType object is not subscriptable'')"
      by (rule build_package_listed)
  qed
  from for_each_avoids [of "order build_dep" "build_package order vparse self build_dep", OF this]
  have "for_each (build_package order vparse self build_dep) (order build_dep) ([], []) \<noteq>
      Inl (TypeError ''NoneType object is not subscriptable'')" .
  then show "gen_makefile order vparse self main_targets build_dep \<noteq>
        Inl (TypeError ''NoneType object is not subscriptable'')"
    by (auto simp: gen_makefile_def accumulate_targets_def split: sum.splits prod.splits)
qed

text \<open>
  C10 on \<open>common_farm\<close>: \<open>stray\<close> is in no repository and makes \<open>gen_makefile\<close> raise;
  \<open>foo\<close> and \<open>bar\<close> are listed, and the plan for them is written.
\<close>

theorem unlisted_package_fails_witness:
  "get_repository common_farm ''stray'' = ((None, None), []) \<and>
   gen_makefile sorted_list_of_set release_version common_farm {''stray''} {''stray''} =
     Inl (TypeError ''NoneType object is not subscriptable'') \<and>
   gen_makefile sorted_list_of_set release_version common_farm {''foo''} {''foo'', ''bar''} \<noteq>
     Inl (TypeError ''NoneType object is not subscriptable'')"
proof -
  note t = unlisted_package_fails [of common_farm _ sorted_list_of_set release_version]
  have s: "\<not> listed common_farm ''stray''"
    by (simp add: listed_def common_farm_def)
  have l: "\<forall>q \<in> {''foo'', ''bar''}. listed common_farm q"
    by (simp add: listed_def common_farm_def)
  have f: "finite {''foo'', ''bar''}" by simp
  from t [of "''stray''"] s have 1: "get_repository common_farm ''stray'' = ((None, None), [])"
    by blast
  from t [of "''stray''" "{''stray''}" "([], [])"] s
  have "build_package sorted_list_of_set release_version common_farm {''stray''} ''stray''
      ([], []) = Inl (TypeError ''NoneType object is not subscriptable'')" by blast
  then have 2: "gen_makefile sorted_list_of_set release_version common_farm {''stray''}
      {''stray''} = Inl (TypeError ''NoneType object is not subscriptable'')"
    by (simp add: gen_makefile_def accumulate_targets_def order_small)
  from t [of _ "{''foo'', ''bar''}" _ "{''foo''}"] enumerates_sorted_list_of_set f l
  have 3: "gen_makefile sorted_list_of_set release_version common_farm {''foo''}
      {''foo'', ''bar''} \<noteq> Inl (TypeError ''NoneType object is not subscriptable'')"
    by blast
  from 1 2 3 show ?thesis by simp
qed

end
